theory Spec2Isabelle
  imports Complex_Main "HOL-Library.Sublist" "HOL-Library.Log_Nat"
begin

section \<open>Python values\<close>

text \<open>
  The office records come from \<^verbatim>\<open>yaml.safe_load\<close>, so a field can hold any value that
  loader builds: \<^verbatim>\<open>None\<close>, a bool, an int, a float, a str, bytes, a date or timestamp,
  a list, a tuple (inside \<^verbatim>\<open>!!omap\<close> and \<^verbatim>\<open>!!pairs\<close>), a set or a dict.

  A Python float is an IEEE 754 double: a finite value (kept as the rational it denotes),
  an infinity or a NaN. The two zeros are not told apart; nothing below depends on the sign
  of a zero.

  A str is kept as the list of the bytes of its UTF-8 encoding. The source's string
  operations that matter (\<^verbatim>\<open>lower\<close>, \<^verbatim>\<open>split("?")\<close>, \<^verbatim>\<open>endswith\<close> of an ASCII suffix)
  give the same verdict on the bytes as on the code points: no byte of a non-ASCII code
  point is an ASCII byte, and \<^verbatim>\<open>str.lower\<close> maps no non-ASCII code point to one of the
  letters of the image extensions directly before the end or before an ASCII byte
  (U+212A becomes \<^verbatim>\<open>k\<close>, which is in no extension; U+0130 becomes \<^verbatim>\<open>i\<close> followed by
  U+0307).
\<close>

datatype pyfloat = Fin rat | PInf | NInf | NaN

datatype pyval =
    PNone
  | PBool bool
  | PInt int
  | PFloat pyfloat
  | PStr string
  | PBytes string
  | PDate string
  | PList "pyval list"
  | PTuple "pyval list"
  | PSet "pyval list"
  | PDict "(pyval \<times> pyval) list"

text \<open>The exceptions the modelled code can raise. All are subclasses of \<^verbatim>\<open>Exception\<close>.\<close>

datatype py_error = ValueError | TypeError | KeyError | OverflowError | ZeroDivisionError

text \<open>
  A record of the input is a dict with string keys. The dicts are objects: the input list
  holds references to them, \<^verbatim>\<open>validate_records\<close> assigns to their keys, and a YAML alias
  puts the same object at two positions of the list. So the objects live in a store, and a
  list of records is a list of addresses.
\<close>

type_synonym pydict = "string \<rightharpoonup> pyval"
type_synonym addr = nat
type_synonym heap = "addr \<Rightarrow> pydict"

text \<open>Truth value testing (\<^verbatim>\<open>not x\<close>, \<^verbatim>\<open>x or y\<close>, \<^verbatim>\<open>x and y\<close>).\<close>

fun truthy :: "pyval \<Rightarrow> bool" where
  "truthy PNone = False"
| "truthy (PBool b) = b"
| "truthy (PInt i) = (i \<noteq> 0)"
| "truthy (PFloat f) = (f \<noteq> Fin 0)"
| "truthy (PStr s) = (s \<noteq> [])"
| "truthy (PBytes s) = (s \<noteq> [])"
| "truthy (PDate d) = True"
| "truthy (PList xs) = (xs \<noteq> [])"
| "truthy (PTuple xs) = (xs \<noteq> [])"
| "truthy (PSet xs) = (xs \<noteq> [])"
| "truthy (PDict kvs) = (kvs \<noteq> [])"

text \<open>\<^verbatim>\<open>r.get(key, default)\<close> and \<^verbatim>\<open>r.get(key)\<close>, whose default is \<^verbatim>\<open>None\<close>.\<close>

definition dict_get :: "pydict \<Rightarrow> string \<Rightarrow> pyval \<Rightarrow> pyval" where
  "dict_get r k dflt = (case r k of None \<Rightarrow> dflt | Some v \<Rightarrow> v)"

text \<open>\<^verbatim>\<open>r[key]\<close> raises \<^verbatim>\<open>KeyError\<close> on an absent key.\<close>

definition getitem :: "pydict \<Rightarrow> string \<Rightarrow> py_error + pyval" where
  "getitem r k = (case r k of None \<Rightarrow> Inl KeyError | Some v \<Rightarrow> Inr v)"

section \<open>Strings\<close>

text \<open>\<^verbatim>\<open>str.lower\<close> on the ASCII letters; every other byte is kept.\<close>

definition lower_chr :: "char \<Rightarrow> char" where
  "lower_chr c =
     (case map_of (zip ''ABCDEFGHIJKLMNOPQRSTUVWXYZ'' ''abcdefghijklmnopqrstuvwxyz'') c of
        None \<Rightarrow> c
      | Some l \<Rightarrow> l)"

definition lower :: "string \<Rightarrow> string" where
  "lower s = map lower_chr s"

text \<open>\<^verbatim>\<open>s.split(sep)\<close> for a separator of one character: never an empty list.\<close>

fun split_on :: "char \<Rightarrow> string \<Rightarrow> string list" where
  "split_on sep [] = [[]]"
| "split_on sep (c # cs) =
     (if c = sep then [] # split_on sep cs
      else (case split_on sep cs of [] \<Rightarrow> [[c]] | p # ps \<Rightarrow> (c # p) # ps))"

text \<open>\<^verbatim>\<open>s.endswith(suffix)\<close> and \<^verbatim>\<open>s.endswith((suffix, ...))\<close> with a tuple.\<close>

definition endswith :: "string \<Rightarrow> string \<Rightarrow> bool" where
  "endswith s sfx = (length sfx \<le> length s \<and> drop (length s - length sfx) s = sfx)"

definition endswith_any :: "string \<Rightarrow> string list \<Rightarrow> bool" where
  "endswith_any s sfxs = list_ex (endswith s) sfxs"

text \<open>\<^verbatim>\<open>sep.join(parts)\<close>.\<close>

fun join :: "string \<Rightarrow> string list \<Rightarrow> string" where
  "join sep [] = []"
| "join sep [p] = p"
| "join sep (p # q # ps) = p @ sep @ join sep (q # ps)"

text \<open>\<^verbatim>\<open>str(n)\<close> of an int, as an f-string formats it: decimal digits, a minus sign first.\<close>

fun str_nat :: "nat \<Rightarrow> string" where
  "str_nat n =
     (if n < 10 then [''0123456789'' ! n]
      else str_nat (n div 10) @ [''0123456789'' ! (n mod 10)])"

declare str_nat.simps [simp del]

definition str_int :: "int \<Rightarrow> string" where
  "str_int i = (if i < 0 then CHR ''-'' # str_nat (nat (- i)) else str_nat (nat i))"

section \<open>Direct image references\<close>

text \<open>
  \<^verbatim>\<open>
  def _is_direct_image(url: Optional[str]) -> bool:
      if not url or not isinstance(url, str): return False
      url_l = url.lower().split("?")[0]
      return url_l.endswith((".png", ".jpg", ".jpeg", ".gif", ".webp", ".bmp", ".svg"))
  \<close>
\<close>

definition IMAGE_EXTS :: "string list" where
  "IMAGE_EXTS = [''.png'', ''.jpg'', ''.jpeg'', ''.gif'', ''.webp'', ''.bmp'', ''.svg'']"

fun is_str :: "pyval \<Rightarrow> bool" where
  "is_str (PStr s) = True"
| "is_str v = False"

fun is_direct_image :: "pyval \<Rightarrow> bool" where
  "is_direct_image url =
     (if \<not> truthy url \<or> \<not> is_str url then False
      else (case url of
              PStr s \<Rightarrow> (let url_l = hd (split_on (CHR ''?'') (lower s)) in endswith_any url_l IMAGE_EXTS)
            | _ \<Rightarrow> False))"

text \<open>
  The classification in the spec's words: the portion before the first \<^verbatim>\<open>?\<close>, and an
  ending that matches an extension when the case of the letters is ignored.
\<close>

definition before_query :: "string \<Rightarrow> string" where
  "before_query s = takeWhile (\<lambda>c. c \<noteq> CHR ''?'') s"

definition ends_with_ci :: "string \<Rightarrow> string \<Rightarrow> bool" where
  "ends_with_ci s ext = (\<exists>pre t. s = pre @ t \<and> lower t = lower ext)"

definition spec_direct_image :: "pyval \<Rightarrow> bool" where
  "spec_direct_image url =
     (\<exists>s. url = PStr s \<and> s \<noteq> [] \<and>
        (\<exists>ext \<in> {''.png'', ''.jpg'', ''.jpeg'', ''.gif'', ''.webp'', ''.bmp'', ''.svg''}.
           ends_with_ci (before_query s) ext))"

section \<open>What the Python runtime supplies\<close>

text \<open>
  Two builtins are used by the code on values whose treatment is the interpreter's, not the
  repository's: \<^verbatim>\<open>float(s)\<close> on a str or on bytes (the grammar of float literals and
  the correctly rounded conversion), and \<^verbatim>\<open>str(v)\<close>, which an f-string applies to a
  value that is no str (the repr of floats, lists, dicts, dates). They are parameters of
  the model: every theorem below holds for whatever these functions are.
  \<^verbatim>\<open>float_of_str rt s = None\<close> says that \<^verbatim>\<open>float(s)\<close> raises \<^verbatim>\<open>ValueError\<close>.
\<close>

record pyrt =
  float_of_str :: "string \<Rightarrow> pyfloat option"
  float_of_bytes :: "string \<Rightarrow> pyfloat option"
  str_of :: "pyval \<Rightarrow> string"

text \<open>A replacement field \<^verbatim>\<open>{v}\<close> of an f-string.\<close>

definition fmt :: "pyrt \<Rightarrow> pyval \<Rightarrow> string" where
  "fmt rt v =
     (case v of
        PStr s \<Rightarrow> s
      | PInt i \<Rightarrow> str_int i
      | PNone \<Rightarrow> ''None''
      | PBool b \<Rightarrow> (if b then ''True'' else ''False'')
      | _ \<Rightarrow> str_of rt v)"


definition dq :: string where
  "dq = [CHR 0x22]"

definition nl :: string where
  "nl = [CHR 0x0A]"

section \<open>The round marker icon\<close>

text \<open>
  \<^verbatim>\<open>
  def build_round_logo_divicon(logo_url: Optional[str], size: int) -> folium.DivIcon:
      diameter = size
      radius = diameter // 2
      if logo_url and _is_direct_image(logo_url):
          html = f'''
          <div style="width:{diameter}px;height:{diameter}px;border-radius:50%;
                      overflow:hidden; box-shadow:0 0 0 2px rgba(0,0,0,0.12), 0 6px 14px rgba(0,0,0,0.2);">
            <img src="{logo_url}" style="width:100%;height:100%;object-fit:cover;display:block;" />
          </div>
          '''
      else:
          html = f''' ... background:#c4c4c4; ... '''
      return folium.DivIcon(html=html, icon_size=(diameter, diameter),
                            icon_anchor=(radius, radius), class_name="capco-round-icon")
  \<close>
  \<^verbatim>\<open>folium.DivIcon\<close> stores its arguments; the icon is the record of them. \<^verbatim>\<open>//\<close> on
  ints is floor division, which is \<open>div\<close> on \<open>int\<close>. No operation of the body can raise:
  truth testing and \<^verbatim>\<open>_is_direct_image\<close> accept every value, and the divisor is 2.
\<close>

record divicon =
  html :: string
  icon_size :: "int \<times> int"
  icon_anchor :: "int \<times> int"
  class_name :: string

definition round_image_html :: "int \<Rightarrow> string \<Rightarrow> string" where
  "round_image_html diameter logo_url =
     nl @ ''        <div style='' @ dq @ ''width:'' @ str_int diameter @ ''px;height:'' @
     str_int diameter @ ''px;border-radius:50%;'' @ nl @
     ''                    overflow:hidden; box-shadow:0 0 0 2px rgba(0,0,0,0.12), 0 6px 14px rgba(0,0,0,0.2);'' @
     dq @ ''>'' @ nl @ ''          <img src='' @ dq @ logo_url @ dq @ '' style='' @ dq @
     ''width:100%;height:100%;object-fit:cover;display:block;'' @ dq @ '' />'' @ nl @
     ''        </div>'' @ nl @ ''        ''"

definition grey_circle_html :: "int \<Rightarrow> string" where
  "grey_circle_html diameter =
     nl @ ''        <div style='' @ dq @ ''width:'' @ str_int diameter @ ''px;height:'' @
     str_int diameter @ ''px;border-radius:50%;'' @ nl @
     ''                    background:#c4c4c4; box-shadow:0 0 0 2px rgba(0,0,0,0.12), 0 6px 14px rgba(0,0,0,0.2);'' @
     dq @ ''>'' @ nl @ ''        </div>'' @ nl @ ''        ''"

definition build_round_logo_divicon :: "pyrt \<Rightarrow> pyval \<Rightarrow> int \<Rightarrow> divicon" where
  "build_round_logo_divicon rt logo_url sz =
     (let diameter = sz;
          radius = diameter div 2;
          h = (if truthy logo_url \<and> is_direct_image logo_url
               then round_image_html diameter (fmt rt logo_url)
               else grey_circle_html diameter)
      in \<lparr>html = h, icon_size = (diameter, diameter), icon_anchor = (radius, radius),
          class_name = ''capco-round-icon''\<rparr>)"

text \<open>
  What the spec asks of the two pictures, read on the markup: a box of \<open>d\<close> by \<open>d\<close> pixels
  with a border radius of 50 percent, which either clips (\<^verbatim>\<open>overflow:hidden\<close>) an image
  whose source is the logo, or has the grey background \<^verbatim>\<open>#c4c4c4\<close> and no image.
\<close>

definition circle_box :: "int \<Rightarrow> string" where
  "circle_box d = ''width:'' @ str_int d @ ''px;height:'' @ str_int d @ ''px;border-radius:50%;''"

definition circular_image :: "int \<Rightarrow> string \<Rightarrow> string \<Rightarrow> bool" where
  "circular_image d src h \<longleftrightarrow>
     sublist (circle_box d) h \<and> sublist ''overflow:hidden;'' h \<and>
     sublist (''<img src='' @ dq @ src @ dq) h"

definition plain_circle :: "int \<Rightarrow> string \<Rightarrow> bool" where
  "plain_circle d h \<longleftrightarrow>
     sublist (circle_box d) h \<and> sublist ''background:#c4c4c4;'' h \<and> \<not> sublist ''<img'' h"

section \<open>The popup\<close>







section \<open>Floats\<close>

text \<open>
  The value of a real number as a double: round to nearest, ties to even, with the
  subnormal range below \<open>2\<^sup>-\<^sup>1\<^sup>0\<^sup>2\<^sup>2\<close> and overflow to an infinity from \<open>2\<^sup>1\<^sup>0\<^sup>2\<^sup>4\<close> on.
  \<open>ilog2 x\<close> is the exponent of the binade of a positive \<open>x\<close>.
\<close>

definition round_half_even :: "rat \<Rightarrow> int" where
  "round_half_even x =
     (let f = \<lfloor>x\<rfloor>; d = x - of_int f
      in if d < 1 / 2 then f else if 1 / 2 < d then f + 1 else if even f then f else f + 1)"

definition ilog2 :: "rat \<Rightarrow> int" where
  "ilog2 x =
     (let (a, b) = quotient_of x; e = bitlen a - bitlen b
      in if 2 powi e \<le> x then e else e - 1)"

definition rnd :: "rat \<Rightarrow> pyfloat" where
  "rnd x =
     (if x = 0 then Fin 0
      else let e = max (ilog2 \<bar>x\<bar>) (- 1022);
               u = 2 powi (e - 52);
               r = of_int (round_half_even (x / u)) * u
           in if 2 powi 1024 \<le> \<bar>r\<bar> then (if 0 < x then PInf else NInf) else Fin r)"

text \<open>
  \<^verbatim>\<open>float(v)\<close>. An int converts to the nearest double and raises \<^verbatim>\<open>OverflowError\<close>
  when it is too large; a str or bytes is parsed by the runtime; a float is returned as it
  is; \<^verbatim>\<open>None\<close>, dates and containers raise \<^verbatim>\<open>TypeError\<close>.
\<close>

fun py_float :: "pyrt \<Rightarrow> pyval \<Rightarrow> py_error + pyfloat" where
  "py_float rt (PFloat f) = Inr f"
| "py_float rt (PInt i) = (case rnd (of_int i) of Fin q \<Rightarrow> Inr (Fin q) | _ \<Rightarrow> Inl OverflowError)"
| "py_float rt (PBool b) = Inr (Fin (if b then 1 else 0))"
| "py_float rt (PStr s) = (case float_of_str rt s of None \<Rightarrow> Inl ValueError | Some f \<Rightarrow> Inr f)"
| "py_float rt (PBytes s) = (case float_of_bytes rt s of None \<Rightarrow> Inl ValueError | Some f \<Rightarrow> Inr f)"
| "py_float rt v = Inl TypeError"

text \<open>Addition and division of doubles.\<close>

fun fadd :: "pyfloat \<Rightarrow> pyfloat \<Rightarrow> pyfloat" where
  "fadd NaN y = NaN"
| "fadd x NaN = NaN"
| "fadd PInf NInf = NaN"
| "fadd NInf PInf = NaN"
| "fadd PInf y = PInf"
| "fadd x PInf = PInf"
| "fadd NInf y = NInf"
| "fadd x NInf = NInf"
| "fadd (Fin a) (Fin b) = rnd (a + b)"

text \<open>
  \<^verbatim>\<open>x / y\<close> for a positive finite \<open>y\<close>, the only divisor the code has (a length);
  a zero divisor raises.
\<close>

fun fdiv_pos :: "pyfloat \<Rightarrow> rat \<Rightarrow> pyfloat" where
  "fdiv_pos (Fin a) y = rnd (a / y)"
| "fdiv_pos x y = x"

text \<open>
  The finite doubles: the numbers \<open>m \<cdot> 2\<^sup>k\<close> with a significand below \<open>2\<^sup>5\<^sup>3\<close>, an exponent
  from \<open>-1074\<close> on, and a magnitude below \<open>2\<^sup>1\<^sup>0\<^sup>2\<^sup>4\<close>.
\<close>

definition is_double :: "rat \<Rightarrow> bool" where
  "is_double x \<longleftrightarrow>
     (\<exists>m k. x = of_int m * 2 powi k \<and> \<bar>m\<bar> < 2 ^ 53 \<and> - 1074 \<le> k) \<and> \<bar>x\<bar> < 2 powi 1024"

text \<open>Every running sum of the list, started from \<open>s\<close>, is a double: no addition rounds.\<close>

fun exact_sums :: "rat \<Rightarrow> rat list \<Rightarrow> bool" where
  "exact_sums s [] = True"
| "exact_sums s (x # xs) = (is_double (s + x) \<and> exact_sums (s + x) xs)"

section \<open>Missing values: \<^verbatim>\<open>pd.isna\<close>\<close>

text \<open>
  \<^verbatim>\<open>pd.isna(v)\<close> on a scalar (which includes str, bytes and dates) is true for \<^verbatim>\<open>None\<close> and
  for a NaN float. A tuple, a set and a dict are neither scalars nor arrays, and the answer
  is \<^verbatim>\<open>False\<close>. A list is converted with \<^verbatim>\<open>np.asarray(v, dtype=object)\<close> and the answer is
  the boolean array of the test on each element. NumPy finds the shape of the array by
  descending into nested lists and tuples as long as the lengths agree.

  The code uses the answer as the operand of \<^verbatim>\<open>or\<close>, so its truth value is taken. The
  truth value of an array of one element is the element; of an array of two or more
  elements it is a \<^verbatim>\<open>ValueError\<close> (``The truth value of an array with more than one
  element is ambiguous''); of an empty array it is a \<^verbatim>\<open>ValueError\<close> too from NumPy 2.2
  on (before, \<^verbatim>\<open>False\<close> with a deprecation warning).
\<close>

fun checknull :: "pyval \<Rightarrow> bool" where
  "checknull PNone = True"
| "checknull (PFloat NaN) = True"
| "checknull v = False"

fun np_shape :: "pyval \<Rightarrow> nat list" where
  "np_shape (PList xs) =
     length xs # (case map np_shape xs of [] \<Rightarrow> [] | s # ss \<Rightarrow> foldl longest_common_prefix s ss)"
| "np_shape (PTuple xs) =
     length xs # (case map np_shape xs of [] \<Rightarrow> [] | s # ss \<Rightarrow> foldl longest_common_prefix s ss)"
| "np_shape v = []"

fun np_ravel :: "nat \<Rightarrow> pyval \<Rightarrow> pyval list" where
  "np_ravel 0 v = [v]"
| "np_ravel (Suc n) (PList xs) = concat (map (np_ravel n) xs)"
| "np_ravel (Suc n) (PTuple xs) = concat (map (np_ravel n) xs)"
| "np_ravel (Suc n) v = [v]"

definition array_truth :: "bool list \<Rightarrow> py_error + bool" where
  "array_truth bs = (case bs of [b] \<Rightarrow> Inr b | _ \<Rightarrow> Inl ValueError)"

text \<open>The truth value of \<^verbatim>\<open>pd.isna(v)\<close>.\<close>

definition isna_truth :: "pyval \<Rightarrow> py_error + bool" where
  "isna_truth v =
     (case v of
        PList xs \<Rightarrow> array_truth (map checknull (np_ravel (length (np_shape v)) v))
      | _ \<Rightarrow> Inr (checknull v))"

section \<open>Validation\<close>

text \<open>
  \<^verbatim>\<open>
  REQUIRED_FOR_MARKER = ["latitude", "longitude", "city"]
  REQUIRED_FOR_CARD = ["nome", "region", "CapcoHub", "contact"]

  def validate_records(recs):
      errors, valids = [], []
      for i, r in enumerate(recs, start=1):
          missing = []
          for field in REQUIRED_FOR_MARKER + REQUIRED_FOR_CARD:
              if field not in r or pd.isna(r.get(field)):
                  missing.append(field)
          if "adress" not in r and "address" not in r:
              missing.append("adress/address")
          if missing:
              errors.append(f"Item {i}: faltando campos {', '.join(missing)}")
              continue
          try:
              r["latitude"] = float(r["latitude"]); r["longitude"] = float(r["longitude"])
          except Exception:
              errors.append(f"Item {i}: latitude/longitude inv..lidas"); continue
          valids.append(r)
      return valids, errors
  \<close>
\<close>

definition REQUIRED_FOR_MARKER :: "string list" where
  "REQUIRED_FOR_MARKER = [''latitude'', ''longitude'', ''city'']"

definition REQUIRED_FOR_CARD :: "string list" where
  "REQUIRED_FOR_CARD = [''nome'', ''region'', ''CapcoHub'', ''contact'']"

text \<open>The test \<^verbatim>\<open>field not in r or pd.isna(r.get(field))\<close>; \<^verbatim>\<open>or\<close> stops at a true operand.\<close>

definition field_missing :: "pydict \<Rightarrow> string \<Rightarrow> py_error + bool" where
  "field_missing r field =
     (if r field = None then Inr True else isna_truth (dict_get r field PNone))"

text \<open>The inner loop over the required fields; nothing catches what the test raises.\<close>

fun collect_missing :: "pydict \<Rightarrow> string list \<Rightarrow> string list \<Rightarrow> py_error + string list" where
  "collect_missing r [] missing = Inr missing"
| "collect_missing r (field # rest) missing =
     (case field_missing r field of
        Inl e \<Rightarrow> Inl e
      | Inr b \<Rightarrow> collect_missing r rest (if b then missing @ [field] else missing))"

definition msg_missing :: "nat \<Rightarrow> string list \<Rightarrow> string" where
  "msg_missing i missing = ''Item '' @ str_nat i @ '': faltando campos '' @ join '', '' missing"

definition msg_invalid :: "nat \<Rightarrow> string" where
  "msg_invalid i =
     ''Item '' @ str_nat i @ '': latitude/longitude inv'' @ [CHR 0xC3] @ [CHR 0xA1] @ ''lidas''"

text \<open>
  The \<^verbatim>\<open>try\<close> block: the two assignments in order, the first kept when the second
  statement raises. \<^verbatim>\<open>except Exception\<close> catches every exception of the model. The result
  is the dict after the block and whether the block completed.
\<close>

definition coerce_coordinates :: "pyrt \<Rightarrow> pydict \<Rightarrow> pydict \<times> bool" where
  "coerce_coordinates rt r =
     (case (case getitem r ''latitude'' of Inl e \<Rightarrow> Inl e | Inr v \<Rightarrow> py_float rt v) of
        Inl e \<Rightarrow> (r, False)
      | Inr lat \<Rightarrow>
          (let r1 = r(''latitude'' \<mapsto> PFloat lat)
           in case (case getitem r1 ''longitude'' of Inl e \<Rightarrow> Inl e | Inr v \<Rightarrow> py_float rt v) of
                Inl e \<Rightarrow> (r1, False)
              | Inr lon \<Rightarrow> (r1(''longitude'' \<mapsto> PFloat lon), True)))"

datatype verdict = Valid | Rejected string

text \<open>
  The body of the outer loop on the record at position \<open>i\<close>: the dict as the body leaves
  it, and whether the record goes to \<^verbatim>\<open>valids\<close> or an error string goes to \<^verbatim>\<open>errors\<close>.
\<close>

definition validate_record :: "pyrt \<Rightarrow> nat \<Rightarrow> pydict \<Rightarrow> py_error + pydict \<times> verdict" where
  "validate_record rt i r =
     (case collect_missing r (REQUIRED_FOR_MARKER @ REQUIRED_FOR_CARD) [] of
        Inl e \<Rightarrow> Inl e
      | Inr missing0 \<Rightarrow>
          (let missing = (if r ''adress'' = None \<and> r ''address'' = None
                          then missing0 @ [''adress/address''] else missing0)
           in if missing \<noteq> [] then Inr (r, Rejected (msg_missing i missing))
              else (case coerce_coordinates rt r of
                      (r', False) \<Rightarrow> Inr (r', Rejected (msg_invalid i))
                    | (r', True) \<Rightarrow> Inr (r', Valid))))"

fun validate_loop ::
  "pyrt \<Rightarrow> nat \<Rightarrow> addr list \<Rightarrow> heap \<times> addr list \<times> string list \<Rightarrow>
   py_error + heap \<times> addr list \<times> string list" where
  "validate_loop rt i [] st = Inr st"
| "validate_loop rt i (a # as) (h, valids, errors) =
     (case validate_record rt i (h a) of
        Inl e \<Rightarrow> Inl e
      | Inr (r', Rejected msg) \<Rightarrow> validate_loop rt (Suc i) as (h(a := r'), valids, errors @ [msg])
      | Inr (r', Valid) \<Rightarrow> validate_loop rt (Suc i) as (h(a := r'), valids @ [a], errors))"

text \<open>
  \<^verbatim>\<open>validate_records\<close> on the store \<open>h\<close> and the list of references \<open>recs\<close>: an exception,
  or the store it leaves with the two lists it returns.
\<close>

definition validate_records ::
  "pyrt \<Rightarrow> heap \<Rightarrow> addr list \<Rightarrow> py_error + heap \<times> addr list \<times> string list" where
  "validate_records rt h recs = validate_loop rt 1 recs (h, [], [])"

text \<open>
  The verdicts of a run, position by position; each is taken on the record as the earlier
  iterations left it. The list ends where the run raises.
\<close>

fun verdicts :: "pyrt \<Rightarrow> nat \<Rightarrow> addr list \<Rightarrow> heap \<Rightarrow> verdict list" where
  "verdicts rt i [] h = []"
| "verdicts rt i (a # as) h =
     (case validate_record rt i (h a) of
        Inl e \<Rightarrow> []
      | Inr (r', vd) \<Rightarrow> vd # verdicts rt (Suc i) as (h(a := r')))"

text \<open>
  The records a list of verdicts accepts, in the order of the list, and the error strings
  of the rejected ones: one string for each rejected position.
\<close>

fun accepted :: "addr list \<Rightarrow> verdict list \<Rightarrow> addr list" where
  "accepted (a # as) (Valid # vs) = a # accepted as vs"
| "accepted (a # as) (Rejected m # vs) = accepted as vs"
| "accepted as vs = []"

fun rejections :: "verdict list \<Rightarrow> string list" where
  "rejections [] = []"
| "rejections (Valid # vs) = rejections vs"
| "rejections (Rejected m # vs) = m # rejections vs"

text \<open>
  The spec's reading of a missing field: absent from the mapping, or present but null or
  NaN.
\<close>

definition spec_missing :: "pydict \<Rightarrow> string \<Rightarrow> bool" where
  "spec_missing r field \<longleftrightarrow>
     r field = None \<or> r field = Some PNone \<or> r field = Some (PFloat NaN)"

text \<open>The coordinates of a record were replaced by their float coercions, and nothing else.\<close>

definition coerced :: "pyrt \<Rightarrow> pydict \<Rightarrow> pydict \<Rightarrow> bool" where
  "coerced rt r r' \<longleftrightarrow>
     (\<exists>vlat vlon lat lon.
        r ''latitude'' = Some vlat \<and> r ''longitude'' = Some vlon \<and>
        isna_truth vlat = Inr False \<and> isna_truth vlon = Inr False \<and>
        py_float rt vlat = Inr lat \<and> py_float rt vlon = Inr lon \<and>
        r' = r(''latitude'' \<mapsto> PFloat lat, ''longitude'' \<mapsto> PFloat lon))"

text \<open>
  Only the latitude was replaced: the state a record is left in when the second
  assignment of the \<^verbatim>\<open>try\<close> block raises.
\<close>

definition half_coerced :: "pyrt \<Rightarrow> pydict \<Rightarrow> pydict \<Rightarrow> bool" where
  "half_coerced rt r r' \<longleftrightarrow>
     (\<exists>vlat lat.
        r ''latitude'' = Some vlat \<and> py_float rt vlat = Inr lat \<and>
        r' = r(''latitude'' \<mapsto> PFloat lat) \<and>
        (\<forall>vlon. r ''longitude'' = Some vlon \<longrightarrow> (\<exists>e. py_float rt vlon = Inl e)))"


text \<open>A record carries a finite latitude and a finite longitude.\<close>

definition finite_coordinates :: "pydict \<Rightarrow> bool" where
  "finite_coordinates r \<longleftrightarrow>
     (\<exists>x y. r ''latitude'' = Some (PFloat (Fin x)) \<and> r ''longitude'' = Some (PFloat (Fin y)))"

text \<open>
  Where a coordinate \<open>x\<close> that is not finite can come from: an infinite float of the
  input, kept as it is, or a str or bytes that \<^verbatim>\<open>float\<close> parses to an infinity or a NaN.
\<close>

definition finite_or_kept :: "pyrt \<Rightarrow> pyval \<Rightarrow> pyfloat \<Rightarrow> bool" where
  "finite_or_kept rt v x \<longleftrightarrow>
     (\<exists>q. x = Fin q) \<or>
     (v = PFloat x \<and> (x = PInf \<or> x = NInf)) \<or>
     (\<exists>s. v = PStr s \<and> float_of_str rt s = Some x) \<or>
     (\<exists>s. v = PBytes s \<and> float_of_bytes rt s = Some x)"

text \<open>
  How the dict of a record can differ from the dict the input held: not at all, by the
  latitude, or by both coordinates.
\<close>

definition related :: "pyrt \<Rightarrow> pydict \<Rightarrow> pydict \<Rightarrow> bool" where
  "related rt r0 r \<longleftrightarrow> r = r0 \<or> half_coerced rt r0 r \<or> coerced rt r0 r"

section \<open>Example inputs\<close>

text \<open>A store that holds the dicts of a list at the addresses 0, 1, ...\<close>

definition store :: "pydict list \<Rightarrow> heap" where
  "store ds a = (if a < length ds then ds ! a else Map.empty)"

text \<open>A record with every required field, at the given coordinates.\<close>

definition office :: "pyval \<Rightarrow> pyval \<Rightarrow> pydict" where
  "office lat lon =
     [''latitude'' \<mapsto> lat, ''longitude'' \<mapsto> lon, ''city'' \<mapsto> PStr ''Lisboa'',
      ''nome'' \<mapsto> PStr ''Capco Lisboa'', ''region'' \<mapsto> PStr ''EMEA'',
      ''CapcoHub'' \<mapsto> PStr ''https://hub.test/lisboa'', ''contact'' \<mapsto> PStr ''lisboa@capco.test'',
      ''address'' \<mapsto> PStr ''Rua Augusta 1'']"

text \<open>
  A runtime for the examples: \<^verbatim>\<open>float\<close> on the strings the examples use, where it agrees
  with Python (\<^verbatim>\<open>float("not-a-number")\<close> raises \<^verbatim>\<open>ValueError\<close>).
\<close>

definition example_rt :: pyrt where
  "example_rt =
     \<lparr>float_of_str = map_of [(''nan'', NaN), (''inf'', PInf), (''38.75'', Fin (155 / 4))],
      float_of_bytes = (\<lambda>s. None),
      str_of = (\<lambda>v. ''?'')\<rparr>"

section \<open>The map centre\<close>

text \<open>
  \<^verbatim>\<open>
  def compute_map_center(recs):
      lats = [r["latitude"] for r in recs]; lons = [r["longitude"] for r in recs]
      return sum(lats)/len(lats), sum(lons)/len(lons)
  \<close>
  \<^verbatim>\<open>sum\<close> starts from the int 0 and adds from left to right, so every element has to be
  a number: an int (or bool) or a float. The sum of ints is an int, exact; once a float is
  met the sum is a float. (From Python 3.12 on \<^verbatim>\<open>sum\<close> carries a compensation term for
  floats; it is zero whenever the additions are exact, which is where the results below
  that speak of the value of a sum apply.) \<^verbatim>\<open>/\<close> is true division and raises
  \<^verbatim>\<open>ZeroDivisionError\<close> for the length 0.
\<close>

datatype pynum = NInt int | NFloat pyfloat

fun as_num :: "pyval \<Rightarrow> py_error + pynum" where
  "as_num (PInt i) = Inr (NInt i)"
| "as_num (PBool b) = Inr (NInt (if b then 1 else 0))"
| "as_num (PFloat f) = Inr (NFloat f)"
| "as_num v = Inl TypeError"

text \<open>\<^verbatim>\<open>float(i)\<close> of an int operand that meets a float.\<close>

definition int_to_float :: "int \<Rightarrow> py_error + pyfloat" where
  "int_to_float i = (case rnd (of_int i) of Fin q \<Rightarrow> Inr (Fin q) | _ \<Rightarrow> Inl OverflowError)"

fun num_add :: "pynum \<Rightarrow> pynum \<Rightarrow> py_error + pynum" where
  "num_add (NInt a) (NInt b) = Inr (NInt (a + b))"
| "num_add (NInt a) (NFloat y) =
     (case int_to_float a of Inl e \<Rightarrow> Inl e | Inr x \<Rightarrow> Inr (NFloat (fadd x y)))"
| "num_add (NFloat x) (NInt b) =
     (case int_to_float b of Inl e \<Rightarrow> Inl e | Inr y \<Rightarrow> Inr (NFloat (fadd x y)))"
| "num_add (NFloat x) (NFloat y) = Inr (NFloat (fadd x y))"

fun py_sum :: "pynum \<Rightarrow> pyval list \<Rightarrow> py_error + pynum" where
  "py_sum acc [] = Inr acc"
| "py_sum acc (v # vs) =
     (case as_num v of
        Inl e \<Rightarrow> Inl e
      | Inr x \<Rightarrow> (case num_add acc x of Inl e \<Rightarrow> Inl e | Inr acc' \<Rightarrow> py_sum acc' vs))"

text \<open>
  \<^verbatim>\<open>s / n\<close> for the length \<open>n\<close> of a list: the quotient of two ints is the correctly
  rounded quotient; a float is divided by the length as a float.
\<close>

definition num_div_len :: "pynum \<Rightarrow> nat \<Rightarrow> py_error + pyfloat" where
  "num_div_len s n =
     (if n = 0 then Inl ZeroDivisionError
      else (case s of
              NInt a \<Rightarrow>
                (case rnd (of_int a / of_nat n) of
                   Fin q \<Rightarrow> Inr (Fin q)
                 | _ \<Rightarrow> Inl OverflowError)
            | NFloat x \<Rightarrow>
                (case rnd (of_nat n) of
                   Fin y \<Rightarrow> Inr (fdiv_pos x y)
                 | _ \<Rightarrow> Inl OverflowError)))"

fun getitems :: "heap \<Rightarrow> addr list \<Rightarrow> string \<Rightarrow> py_error + pyval list" where
  "getitems h [] k = Inr []"
| "getitems h (a # as) k =
     (case getitem (h a) k of
        Inl e \<Rightarrow> Inl e
      | Inr v \<Rightarrow> (case getitems h as k of Inl e \<Rightarrow> Inl e | Inr vs \<Rightarrow> Inr (v # vs)))"

definition mean_of :: "pyval list \<Rightarrow> py_error + pyfloat" where
  "mean_of xs =
     (case py_sum (NInt 0) xs of Inl e \<Rightarrow> Inl e | Inr s \<Rightarrow> num_div_len s (length xs))"

definition compute_map_center :: "heap \<Rightarrow> addr list \<Rightarrow> py_error + pyfloat \<times> pyfloat" where
  "compute_map_center h recs =
     (case getitems h recs ''latitude'' of
        Inl e \<Rightarrow> Inl e
      | Inr lats \<Rightarrow>
          (case getitems h recs ''longitude'' of
             Inl e \<Rightarrow> Inl e
           | Inr lons \<Rightarrow>
               (case mean_of lats of
                  Inl e \<Rightarrow> Inl e
                | Inr clat \<Rightarrow>
                    (case mean_of lons of Inl e \<Rightarrow> Inl e | Inr clon \<Rightarrow> Inr (clat, clon)))))"

section \<open>The markers\<close>




section \<open>Properties of the string functions\<close>

lemma split_on_nonempty: "split_on sep s \<noteq> []"
  by (induction s) (auto split: list.splits)

lemma hd_split_on: "hd (split_on sep s) = takeWhile (\<lambda>c. c \<noteq> sep) s"
proof (induction s)
  case Nil
  show ?case by simp
next
  case (Cons c cs)
  then show ?case
    using split_on_nonempty [of sep cs] by (cases "split_on sep cs") auto
qed

lemma endswith_suffix: "endswith s sfx \<longleftrightarrow> suffix sfx s"
proof
  assume "endswith s sfx"
  then have "s = take (length s - length sfx) s @ sfx"
    by (metis append_take_drop_id endswith_def)
  then show "suffix sfx s"
    by (metis suffixI)
next
  assume "suffix sfx s"
  then obtain pre where "s = pre @ sfx"
    by (auto simp: suffix_def)
  then show "endswith s sfx"
    by (simp add: endswith_def)
qed

lemma lower_chr_query: "lower_chr c = CHR ''?'' \<longleftrightarrow> c = CHR ''?''"
  by (auto simp: lower_chr_def split: option.splits if_splits)

lemma lower_takeWhile_query:
  "takeWhile (\<lambda>c. c \<noteq> CHR ''?'') (lower s) = lower (takeWhile (\<lambda>c. c \<noteq> CHR ''?'') s)"
  by (induction s) (auto simp: lower_def lower_chr_query)

lemma suffix_lower_iff:
  "suffix ext (lower s) \<longleftrightarrow> (\<exists>pre t. s = pre @ t \<and> lower t = ext)"
proof
  assume "suffix ext (lower s)"
  then obtain p where p: "lower s = p @ ext"
    by (auto simp: suffix_def)
  let ?k = "length s - length ext"
  have len: "length s = length p + length ext"
    using p by (metis length_append length_map lower_def)
  have "lower (drop ?k s) = drop ?k (lower s)"
    by (simp add: lower_def drop_map)
  also have "\<dots> = ext"
    using p len by simp
  finally have "lower (drop ?k s) = ext" .
  moreover have "s = take ?k s @ drop ?k s"
    by simp
  ultimately show "\<exists>pre t. s = pre @ t \<and> lower t = ext"
    by blast
next
  assume "\<exists>pre t. s = pre @ t \<and> lower t = ext"
  then obtain pre t where "s = pre @ t" "lower t = ext"
    by blast
  then have "lower s = lower pre @ ext"
    by (simp add: lower_def)
  then show "suffix ext (lower s)"
    by (metis suffixI)
qed

lemma lower_IMAGE_EXTS: "ext \<in> set IMAGE_EXTS \<Longrightarrow> lower ext = ext"
  by (auto simp: IMAGE_EXTS_def lower_def lower_chr_def)

lemma set_IMAGE_EXTS:
  "set IMAGE_EXTS = {''.png'', ''.jpg'', ''.jpeg'', ''.gif'', ''.webp'', ''.bmp'', ''.svg''}"
  by (simp add: IMAGE_EXTS_def)

text \<open>
  C6. \<^verbatim>\<open>_is_direct_image\<close> returns true exactly for a non-empty string whose portion
  before the first \<^verbatim>\<open>?\<close> ends, letter case ignored, with one of \<^verbatim>\<open>.png .jpg .jpeg .gif
  .webp .bmp .svg\<close>; every other value (an empty string, \<^verbatim>\<open>None\<close>, a value of another
  type) is classified false.
\<close>

theorem is_direct_image_iff_spec: "is_direct_image url \<longleftrightarrow> spec_direct_image url"
proof (cases url)
  case (PStr s)
  have "endswith_any (hd (split_on (CHR ''?'') (lower s))) IMAGE_EXTS \<longleftrightarrow>
        (\<exists>ext \<in> set IMAGE_EXTS. ends_with_ci (before_query s) ext)"
    unfolding endswith_any_def list_ex_iff hd_split_on lower_takeWhile_query endswith_suffix
      suffix_lower_iff ends_with_ci_def before_query_def
    by (metis lower_IMAGE_EXTS)
  then show ?thesis
    using PStr by (auto simp: spec_direct_image_def set_IMAGE_EXTS)
qed (auto simp: spec_direct_image_def)

theorem is_direct_image_examples:
  "spec_direct_image (PStr ''https://x.test/logo.PNG'') \<and>
   \<not> spec_direct_image (PStr ''https://x.test/profile?id=1'') \<and>
   \<not> spec_direct_image (PStr '''') \<and> \<not> spec_direct_image PNone"
  unfolding is_direct_image_iff_spec [symmetric]
  by (simp add: endswith_any_def endswith_def IMAGE_EXTS_def lower_def lower_chr_def)

section \<open>The icon and the popup\<close>

lemma digit_mem: "k < 10 \<Longrightarrow> ''0123456789'' ! k \<in> set ''0123456789''"
  by (rule nth_mem) simp

lemma set_single_subset: "x \<in> A \<Longrightarrow> set [x] \<subseteq> A"
  by simp

lemma set_snoc_subset: "set xs \<subseteq> A \<Longrightarrow> x \<in> A \<Longrightarrow> set (xs @ [x]) \<subseteq> A"
  by simp

lemma str_nat_digits: "set (str_nat n) \<subseteq> set ''0123456789''"
proof (induction n rule: str_nat.induct)
  case (1 n)
  show ?case
  proof (cases "n < 10")
    case True
    then have "str_nat n = [''0123456789'' ! n]"
      by (subst str_nat.simps) simp
    then show ?thesis
      using set_single_subset [OF digit_mem [OF True]] by metis
  next
    case False
    then have e: "str_nat n = str_nat (n div 10) @ [''0123456789'' ! (n mod 10)]"
      by (subst str_nat.simps) simp
    have "n mod 10 < 10" by simp
    from set_snoc_subset [OF 1 [OF False] digit_mem [OF this]] show ?thesis
      unfolding e .
  qed
qed

lemma str_int_no_m: "CHR ''m'' \<notin> set (str_int i)"
proof -
  have "CHR ''m'' \<notin> set (str_nat k)" for k
    using str_nat_digits [of k] by auto
  then show ?thesis
    by (simp add: str_int_def)
qed

lemma round_image_html_circular: "circular_image d src (round_image_html d src)"
proof -
  have 1: "sublist (circle_box d) (round_image_html d src)"
    unfolding sublist_def round_image_html_def circle_box_def
    by (rule exI [of _ "nl @ ''        <div style='' @ dq"]) simp
  have 2: "sublist ''overflow:hidden;'' (round_image_html d src)"
    unfolding sublist_def round_image_html_def
    by (rule exI [of _ "nl @ ''        <div style='' @ dq @ ''width:'' @ str_int d @ ''px;height:'' @
     str_int d @ ''px;border-radius:50%;'' @ nl @ ''                    ''"]) simp
  have 3: "sublist (''<img src='' @ dq @ src @ dq) (round_image_html d src)"
    unfolding sublist_def round_image_html_def
    by (rule exI [of _ "nl @ ''        <div style='' @ dq @ ''width:'' @ str_int d @ ''px;height:'' @
     str_int d @ ''px;border-radius:50%;'' @ nl @
     ''                    overflow:hidden; box-shadow:0 0 0 2px rgba(0,0,0,0.12), 0 6px 14px rgba(0,0,0,0.2);'' @
     dq @ ''>'' @ nl @ ''          ''"]) simp
  show ?thesis
    using 1 2 3 by (simp add: circular_image_def)
qed

lemma grey_circle_html_plain: "plain_circle d (grey_circle_html d)"
proof -
  have 1: "sublist (circle_box d) (grey_circle_html d)"
    unfolding sublist_def grey_circle_html_def circle_box_def
    by (rule exI [of _ "nl @ ''        <div style='' @ dq"]) simp
  have 2: "sublist ''background:#c4c4c4;'' (grey_circle_html d)"
    unfolding sublist_def grey_circle_html_def
    by (rule exI [of _ "nl @ ''        <div style='' @ dq @ ''width:'' @ str_int d @ ''px;height:'' @
     str_int d @ ''px;border-radius:50%;'' @ nl @ ''                    ''"]) simp
  have "CHR ''m'' \<notin> set (grey_circle_html d)"
    using str_int_no_m [of d] by (simp add: grey_circle_html_def nl_def dq_def)
  then have 3: "\<not> sublist ''<img'' (grey_circle_html d)"
    using set_mono_sublist [of "''<img''" "grey_circle_html d"] by auto
  show ?thesis
    using 1 2 3 by (simp add: plain_circle_def)
qed

text \<open>
  C7. For every value of the url and every diameter \<open>d\<close>, \<^verbatim>\<open>build_round_logo_divicon\<close>
  yields an icon (the function has no failing path) whose size is \<open>(d, d)\<close> and whose anchor
  is \<open>(d div 2, d div 2)\<close>, floor division; its markup is the clipped round image of \<open>d\<close>
  pixels showing the url when the url is a direct image reference, and the plain grey
  circle of \<open>d\<close> pixels otherwise.
\<close>

theorem build_round_logo_divicon_spec:
  "icon_size (build_round_logo_divicon rt url d) = (d, d) \<and>
   icon_anchor (build_round_logo_divicon rt url d) = (d div 2, d div 2) \<and>
   (if is_direct_image url
    then \<exists>s. url = PStr s \<and> circular_image d s (html (build_round_logo_divicon rt url d))
    else plain_circle d (html (build_round_logo_divicon rt url d)))"
proof (cases "is_direct_image url")
  case True
  then obtain s where s: "url = PStr s" "s \<noteq> []"
    by (cases url) (auto split: if_splits)
  with True show ?thesis
    using round_image_html_circular [of d s]
    by (simp add: build_round_logo_divicon_def Let_def fmt_def del: is_direct_image.simps)
next
  case False
  then show ?thesis
    using grey_circle_html_plain [of d]
    by (simp add: build_round_logo_divicon_def Let_def del: is_direct_image.simps)
qed





theorem build_round_logo_divicon_witness:
  "\<forall>rt.
   icon_size (build_round_logo_divicon rt (PStr ''https://x.test/logo.PNG'') 44) = (44, 44) \<and>
   icon_anchor (build_round_logo_divicon rt (PStr ''https://x.test/logo.PNG'') 44) = (22, 22) \<and>
   circular_image 44 ''https://x.test/logo.PNG''
     (html (build_round_logo_divicon rt (PStr ''https://x.test/logo.PNG'') 44)) \<and>
   icon_anchor (build_round_logo_divicon rt (PStr ''https://x.test/profile?id=1'') 45) = (22, 22) \<and>
   plain_circle 45 (html (build_round_logo_divicon rt (PStr ''https://x.test/profile?id=1'') 45)) \<and>
   plain_circle (- 3) (html (build_round_logo_divicon rt PNone (- 3))) \<and>
   icon_anchor (build_round_logo_divicon rt PNone (- 3)) = (- 2, - 2)"
proof
  fix rt
  have a: "is_direct_image (PStr ''https://x.test/logo.PNG'')"
    by (simp add: endswith_any_def endswith_def IMAGE_EXTS_def lower_def lower_chr_def)
  have b: "\<not> is_direct_image (PStr ''https://x.test/profile?id=1'')"
    by (simp add: endswith_any_def endswith_def IMAGE_EXTS_def lower_def lower_chr_def)
  have c: "\<not> is_direct_image PNone"
    by simp
  have 1: "icon_size (build_round_logo_divicon rt (PStr ''https://x.test/logo.PNG'') 44) = (44, 44) \<and>
     icon_anchor (build_round_logo_divicon rt (PStr ''https://x.test/logo.PNG'') 44) = (22, 22) \<and>
     circular_image 44 ''https://x.test/logo.PNG''
       (html (build_round_logo_divicon rt (PStr ''https://x.test/logo.PNG'') 44))"
    using build_round_logo_divicon_spec [of rt "PStr ''https://x.test/logo.PNG''" 44] a
    by (simp del: is_direct_image.simps)
  have 2: "icon_anchor (build_round_logo_divicon rt (PStr ''https://x.test/profile?id=1'') 45) = (22, 22) \<and>
     plain_circle 45 (html (build_round_logo_divicon rt (PStr ''https://x.test/profile?id=1'') 45))"
    using build_round_logo_divicon_spec [of rt "PStr ''https://x.test/profile?id=1''" 45] b
    by (simp del: is_direct_image.simps)
  have 3: "plain_circle (- 3) (html (build_round_logo_divicon rt PNone (- 3))) \<and>
     icon_anchor (build_round_logo_divicon rt PNone (- 3)) = (- 2, - 2)"
    using build_round_logo_divicon_spec [of rt PNone "- 3"] c
    by (simp del: is_direct_image.simps)
  show "icon_size (build_round_logo_divicon rt (PStr ''https://x.test/logo.PNG'') 44) = (44, 44) \<and>
   icon_anchor (build_round_logo_divicon rt (PStr ''https://x.test/logo.PNG'') 44) = (22, 22) \<and>
   circular_image 44 ''https://x.test/logo.PNG''
     (html (build_round_logo_divicon rt (PStr ''https://x.test/logo.PNG'') 44)) \<and>
   icon_anchor (build_round_logo_divicon rt (PStr ''https://x.test/profile?id=1'') 45) = (22, 22) \<and>
   plain_circle 45 (html (build_round_logo_divicon rt (PStr ''https://x.test/profile?id=1'') 45)) \<and>
   plain_circle (- 3) (html (build_round_logo_divicon rt PNone (- 3))) \<and>
   icon_anchor (build_round_logo_divicon rt PNone (- 3)) = (- 2, - 2)"
    using 1 2 3 by blast
qed

section \<open>Validation: the loop\<close>

lemma validate_loop_acc:
  "validate_loop rt i as (h, v, e) = Inr (h', v', e') \<Longrightarrow>
   length (verdicts rt i as h) = length as \<and>
   v' = v @ accepted as (verdicts rt i as h) \<and>
   e' = e @ rejections (verdicts rt i as h)"
proof (induction as arbitrary: i h v e)
  case Nil
  then show ?case by simp
next
  case (Cons a as)
  show ?case
  proof (cases "validate_record rt i (h a)")
    case (Inl err)
    with Cons.prems show ?thesis by simp
  next
    case (Inr p)
    obtain r' vd where p: "p = (r', vd)" by (cases p)
    have vs: "verdicts rt i (a # as) h = vd # verdicts rt (Suc i) as (h(a := r'))"
      using Inr p by simp
    show ?thesis
    proof (cases vd)
      case Valid
      with Cons.prems Inr p
      have "validate_loop rt (Suc i) as (h(a := r'), v @ [a], e) = Inr (h', v', e')"
        by simp
      from Cons.IH [OF this] show ?thesis
        unfolding vs Valid by (simp add: fun_upd_def)
    next
      case (Rejected m)
      with Cons.prems Inr p
      have "validate_loop rt (Suc i) as (h(a := r'), v, e @ [m]) = Inr (h', v', e')"
        by simp
      from Cons.IH [OF this] show ?thesis
        unfolding vs Rejected by (simp add: fun_upd_def)
    qed
  qed
qed

lemma count_verdicts:
  "length vs = length as \<Longrightarrow> length (accepted as vs) + length (rejections vs) = length as"
  by (induction as vs rule: accepted.induct) auto


lemma validate_records_verdicts:
  "validate_records rt h recs = Inr (h', valids, errors) \<Longrightarrow>
   length (verdicts rt 1 recs h) = length recs \<and>
   valids = accepted recs (verdicts rt 1 recs h) \<and>
   errors = rejections (verdicts rt 1 recs h)"
  using validate_loop_acc [of rt 1 recs h "[]" "[]" h' valids errors]
  by (simp add: validate_records_def)

lemma validate_records_count:
  "validate_records rt h recs = Inr (h', valids, errors) \<Longrightarrow>
   length valids + length errors = length recs"
  using validate_records_verdicts [of rt h recs h' valids errors]
    count_verdicts [of "verdicts rt 1 recs h" recs]
  by simp

section \<open>Validation: one record\<close>

lemma isna_truth_Inl: "isna_truth v = Inl e \<Longrightarrow> e = ValueError \<and> (\<exists>xs. v = PList xs)"
  by (cases v) (auto simp: isna_truth_def array_truth_def split: list.splits)

lemma field_missing_Inl:
  "field_missing r f = Inl e \<Longrightarrow> e = ValueError \<and> (\<exists>xs. r f = Some (PList xs))"
  by (auto simp: field_missing_def dict_get_def dest: isna_truth_Inl split: if_splits option.splits)

lemma field_missing_False:
  "field_missing r f = Inr False \<longleftrightarrow> (\<exists>v. r f = Some v \<and> isna_truth v = Inr False)"
  by (auto simp: field_missing_def dict_get_def split: option.splits)

lemma collect_missing_Inr:
  "collect_missing r fs acc = Inr m \<Longrightarrow>
   m = acc @ filter (\<lambda>f. field_missing r f = Inr True) fs \<and>
   (\<forall>f \<in> set fs. \<exists>b. field_missing r f = Inr b)"
proof (induction fs arbitrary: acc)
  case Nil
  then show ?case by simp
next
  case (Cons f fs)
  from Cons.prems obtain b where b: "field_missing r f = Inr b"
    and rest: "collect_missing r fs (if b then acc @ [f] else acc) = Inr m"
    by (cases "field_missing r f") auto
  from Cons.IH [OF rest] b show ?case
    by (cases b) auto
qed

lemma collect_missing_Inl:
  "collect_missing r fs acc = Inl e \<Longrightarrow> \<exists>f \<in> set fs. field_missing r f = Inl e"
proof (induction fs arbitrary: acc)
  case Nil
  then show ?case by simp
next
  case (Cons f fs)
  then show ?case
    by (cases "field_missing r f") (auto split: if_splits)
qed

lemma collect_missing_total:
  "(\<forall>f \<in> set fs. \<exists>b. field_missing r f = Inr b) \<Longrightarrow>
   collect_missing r fs acc = Inr (acc @ filter (\<lambda>f. field_missing r f = Inr True) fs)"
proof (induction fs arbitrary: acc)
  case Nil
  then show ?case by simp
next
  case (Cons f fs)
  then show ?case
    by (cases "field_missing r f") auto
qed

text \<open>The three ways the loop body ends without raising.\<close>

lemma validate_record_Inr:
  assumes "validate_record rt i r = Inr (r', vd)"
  shows "(\<exists>m. m \<noteq> [] \<and> vd = Rejected (msg_missing i m) \<and> r' = r) \<or>
         ((\<forall>f \<in> set (REQUIRED_FOR_MARKER @ REQUIRED_FOR_CARD). field_missing r f = Inr False) \<and>
          (r ''adress'' \<noteq> None \<or> r ''address'' \<noteq> None) \<and>
          coerce_coordinates rt r = (r', vd = Valid) \<and>
          (vd = Valid \<or> vd = Rejected (msg_invalid i)))"
proof -
  obtain m0 where m0: "collect_missing r (REQUIRED_FOR_MARKER @ REQUIRED_FOR_CARD) [] = Inr m0"
    using assms by (cases "collect_missing r (REQUIRED_FOR_MARKER @ REQUIRED_FOR_CARD) []")
      (auto simp: validate_record_def)
  note c = collect_missing_Inr [OF m0]
  let ?m = "if r ''adress'' = None \<and> r ''address'' = None then m0 @ [''adress/address''] else m0"
  show ?thesis
  proof (cases "?m = []")
    case False
    then show ?thesis
      using assms m0 by (auto simp: validate_record_def Let_def)
  next
    case True
    then have e: "m0 = []" and addr: "r ''adress'' \<noteq> None \<or> r ''address'' \<noteq> None"
      by (auto split: if_splits)
    have "\<forall>f \<in> set (REQUIRED_FOR_MARKER @ REQUIRED_FOR_CARD). field_missing r f = Inr False"
    proof
      fix f assume f: "f \<in> set (REQUIRED_FOR_MARKER @ REQUIRED_FOR_CARD)"
      with c obtain b where b: "field_missing r f = Inr b" by blast
      from c e f have "field_missing r f \<noteq> Inr True"
        by (auto simp: filter_empty_conv)
      with b show "field_missing r f = Inr False" by (cases b) auto
    qed
    moreover obtain r'' ok where co: "coerce_coordinates rt r = (r'', ok)"
      by (cases "coerce_coordinates rt r")
    ultimately show ?thesis
      using assms m0 True addr by (cases ok) (auto simp: validate_record_def Let_def)
  qed
qed

lemma lat_in_required: "''latitude'' \<in> set (REQUIRED_FOR_MARKER @ REQUIRED_FOR_CARD)"
  and lon_in_required: "''longitude'' \<in> set (REQUIRED_FOR_MARKER @ REQUIRED_FOR_CARD)"
  by (simp_all add: REQUIRED_FOR_MARKER_def)

lemma coerce_coordinates_cases:
  assumes "r ''latitude'' = Some vlat" "r ''longitude'' = Some vlon"
  shows "coerce_coordinates rt r =
     (case py_float rt vlat of
        Inl e \<Rightarrow> (r, False)
      | Inr la \<Rightarrow>
          (case py_float rt vlon of
             Inl e \<Rightarrow> (r(''latitude'' \<mapsto> PFloat la), False)
           | Inr lo \<Rightarrow> (r(''latitude'' \<mapsto> PFloat la, ''longitude'' \<mapsto> PFloat lo), True)))"
  using assms
  by (simp add: coerce_coordinates_def getitem_def Let_def split: sum.splits)

lemma coerced_fixed:
  assumes "coerced rt r0 r"
  shows "coerce_coordinates rt r = (r, True)"
proof -
  from assms obtain la lo where f: "r = r0(''latitude'' \<mapsto> PFloat la, ''longitude'' \<mapsto> PFloat lo)"
    unfolding coerced_def by blast
  have 1: "r ''latitude'' = Some (PFloat la)" and 2: "r ''longitude'' = Some (PFloat lo)"
    unfolding f by simp_all
  have 3: "r(''latitude'' \<mapsto> PFloat la, ''longitude'' \<mapsto> PFloat lo) = r"
    unfolding f by (rule ext) simp
  show ?thesis
    unfolding coerce_coordinates_cases [OF 1 2] by (simp add: 3)
qed

lemma half_coerced_fixed:
  assumes "half_coerced rt r0 r" "r ''longitude'' \<noteq> None"
  shows "coerce_coordinates rt r = (r, False)"
proof -
  from assms(1) obtain v0 l0 where h:
    "r = r0(''latitude'' \<mapsto> PFloat l0)"
    "\<forall>vlon. r0 ''longitude'' = Some vlon \<longrightarrow> (\<exists>e. py_float rt vlon = Inl e)"
    unfolding half_coerced_def by blast
  from assms(2) obtain vlon where 2: "r ''longitude'' = Some vlon" by blast
  then have "r0 ''longitude'' = Some vlon" unfolding h(1) by simp
  with h(2) obtain e where e: "py_float rt vlon = Inl e" by blast
  have 1: "r ''latitude'' = Some (PFloat l0)" unfolding h(1) by simp
  have 3: "r(''latitude'' \<mapsto> PFloat l0) = r" unfolding h(1) by (rule ext) simp
  show ?thesis
    unfolding coerce_coordinates_cases [OF 1 2] by (simp add: e 3)
qed

lemma half_not_coerced: "half_coerced rt r0 r \<Longrightarrow> \<not> coerced rt r0 r'"
  unfolding half_coerced_def coerced_def by fastforce

lemma coerce_from_start:
  assumes lat: "r ''latitude'' = Some vlat" "isna_truth vlat = Inr False"
    and lon: "r ''longitude'' = Some vlon" "isna_truth vlon = Inr False"
    and co: "coerce_coordinates rt r = (r', ok)"
  shows "(ok \<longrightarrow> coerced rt r r') \<and> (\<not> ok \<longrightarrow> r' = r \<or> half_coerced rt r r')"
proof (cases "py_float rt vlat")
  case (Inl e)
  with co show ?thesis
    unfolding coerce_coordinates_cases [OF lat(1) lon(1)] by simp
next
  case la: (Inr la)
  show ?thesis
  proof (cases "py_float rt vlon")
    case (Inl e)
    with co la have "r' = r(''latitude'' \<mapsto> PFloat la)" "\<not> ok"
      unfolding coerce_coordinates_cases [OF lat(1) lon(1)] by simp_all
    moreover have "half_coerced rt r (r(''latitude'' \<mapsto> PFloat la))"
      unfolding half_coerced_def using lat(1) lon(1) la Inl by auto
    ultimately show ?thesis by simp
  next
    case (Inr lo)
    with co la have "r' = r(''latitude'' \<mapsto> PFloat la, ''longitude'' \<mapsto> PFloat lo)" "ok"
      unfolding coerce_coordinates_cases [OF lat(1) lon(1)] by simp_all
    moreover have "coerced rt r (r(''latitude'' \<mapsto> PFloat la, ''longitude'' \<mapsto> PFloat lo))"
      unfolding coerced_def using lat lon la Inr by blast
    ultimately show ?thesis by simp
  qed
qed

lemma step_related:
  assumes R: "related rt r0 r" and v: "validate_record rt i r = Inr (r', vd)"
  shows "related rt r0 r' \<and> (vd = Valid \<longrightarrow> coerced rt r0 r') \<and> (coerced rt r0 r \<longrightarrow> r' = r)"
proof -
  from validate_record_Inr [OF v] show ?thesis
  proof
    assume "\<exists>m. m \<noteq> [] \<and> vd = Rejected (msg_missing i m) \<and> r' = r"
    then have "r' = r" "vd \<noteq> Valid" by auto
    with R show ?thesis by simp
  next
    assume a: "(\<forall>f \<in> set (REQUIRED_FOR_MARKER @ REQUIRED_FOR_CARD). field_missing r f = Inr False) \<and>
          (r ''adress'' \<noteq> None \<or> r ''address'' \<noteq> None) \<and>
          coerce_coordinates rt r = (r', vd = Valid) \<and>
          (vd = Valid \<or> vd = Rejected (msg_invalid i))"
    then have "field_missing r ''latitude'' = Inr False" "field_missing r ''longitude'' = Inr False"
      using lat_in_required lon_in_required by blast+
    then obtain vlat vlon where
      lat: "r ''latitude'' = Some vlat" "isna_truth vlat = Inr False" and
      lon: "r ''longitude'' = Some vlon" "isna_truth vlon = Inr False"
      unfolding field_missing_False by blast
    from a have co: "coerce_coordinates rt r = (r', vd = Valid)" by blast
    have fixed: "r' = r" if "coerced rt r0 r"
      using coerced_fixed [OF that] co by simp
    from R consider (same) "r = r0" | (half) "half_coerced rt r0 r" | (full) "coerced rt r0 r"
      unfolding related_def by blast
    then show ?thesis
    proof cases
      case same
      from coerce_from_start [OF lat lon co] have
        "(vd = Valid \<longrightarrow> coerced rt r0 r') \<and> (vd \<noteq> Valid \<longrightarrow> r' = r0 \<or> half_coerced rt r0 r')"
        unfolding same .
      then have "related rt r0 r'" "vd = Valid \<longrightarrow> coerced rt r0 r'"
        unfolding related_def by blast+
      with fixed show ?thesis by blast
    next
      case half
      have "r ''longitude'' \<noteq> None" using lon(1) by simp
      from half_coerced_fixed [OF half this] co have "r' = r" "vd \<noteq> Valid" by simp_all
      with R fixed show ?thesis by blast
    next
      case full
      from coerced_fixed [OF full] co have "r' = r" "vd = Valid" by simp_all
      with R full show ?thesis by blast
    qed
  qed
qed

section \<open>Validation: the store\<close>

lemma validate_loop_step:
  assumes "validate_loop rt i (a # as) (h, v, e) = Inr res"
  obtains r' vd where "validate_record rt i (h a) = Inr (r', vd)"
    and "validate_loop rt (Suc i) as
           (h(a := r'), (case vd of Valid \<Rightarrow> v @ [a] | Rejected m \<Rightarrow> v),
            (case vd of Valid \<Rightarrow> e | Rejected m \<Rightarrow> e @ [m])) = Inr res"
proof (cases "validate_record rt i (h a)")
  case (Inl err)
  with assms show ?thesis by simp
next
  case (Inr p)
  obtain r' vd where p: "p = (r', vd)" by (cases p)
  show ?thesis
  proof (cases vd)
    case Valid
    with assms Inr p that [of r' vd] show ?thesis by simp
  next
    case (Rejected m)
    with assms Inr p that [of r' vd] show ?thesis by simp
  qed
qed

lemma validate_loop_inv:
  "validate_loop rt i as (h, v, e) = Inr (h', v', e') \<Longrightarrow>
   (\<forall>a. related rt (h0 a) (h a)) \<Longrightarrow> (\<forall>a \<in> set v. coerced rt (h0 a) (h a)) \<Longrightarrow>
   (\<forall>a. related rt (h0 a) (h' a)) \<and> (\<forall>a \<in> set v'. coerced rt (h0 a) (h' a)) \<and>
   (\<forall>a. a \<notin> set as \<longrightarrow> h' a = h a)"
proof (induction as arbitrary: i h v e)
  case Nil
  then show ?case by simp
next
  case (Cons a as)
  from Cons.prems(1) obtain r' vd where
    step: "validate_record rt i (h a) = Inr (r', vd)" and
    loop: "validate_loop rt (Suc i) as
           (h(a := r'), (case vd of Valid \<Rightarrow> v @ [a] | Rejected m \<Rightarrow> v),
            (case vd of Valid \<Rightarrow> e | Rejected m \<Rightarrow> e @ [m])) = Inr (h', v', e')"
    by (rule validate_loop_step)
  from Cons.prems(2) have "related rt (h0 a) (h a)" by blast
  from step_related [OF this step] have
    s1: "related rt (h0 a) r'" and s2: "vd = Valid \<Longrightarrow> coerced rt (h0 a) r'" and
    s3: "coerced rt (h0 a) (h a) \<Longrightarrow> r' = h a"
    by blast+
  have rel: "\<forall>b. related rt (h0 b) ((h(a := r')) b)"
  proof
    fix b show "related rt (h0 b) ((h(a := r')) b)"
    proof (cases "b = a")
      case True
      with s1 show ?thesis by simp
    next
      case False
      with Cons.prems(2) show ?thesis by simp
    qed
  qed
  have val: "\<forall>b \<in> set (case vd of Valid \<Rightarrow> v @ [a] | Rejected m \<Rightarrow> v).
               coerced rt (h0 b) ((h(a := r')) b)"
  proof
    fix b assume b: "b \<in> set (case vd of Valid \<Rightarrow> v @ [a] | Rejected m \<Rightarrow> v)"
    show "coerced rt (h0 b) ((h(a := r')) b)"
    proof (cases "b = a")
      case True
      from b have "vd = Valid \<or> b \<in> set v" by (cases vd) auto
      then show ?thesis
      proof
        assume "vd = Valid"
        from s2 [OF this] True show ?thesis by simp
      next
        assume "b \<in> set v"
        with Cons.prems(3) True have c: "coerced rt (h0 a) (h a)" by blast
        from s3 [OF c] c True show ?thesis by simp
      qed
    next
      case False
      with b have "b \<in> set v" by (cases vd) auto
      with Cons.prems(3) False show ?thesis by simp
    qed
  qed
  note IH = Cons.IH [OF loop rel val]
  from IH have 1: "\<forall>b. related rt (h0 b) (h' b)"
    by (rule conjunct1)
  from IH have 2: "\<forall>b \<in> set v'. coerced rt (h0 b) (h' b)"
    by (rule conjunct2 [THEN conjunct1])
  from IH have 3: "\<forall>b. b \<notin> set as \<longrightarrow> h' b = (h(a := r')) b"
    by (rule conjunct2 [THEN conjunct2])
  have 4: "\<forall>b. b \<notin> set (a # as) \<longrightarrow> h' b = h b"
  proof (intro allI impI)
    fix b assume "b \<notin> set (a # as)"
    then have "b \<notin> set as" "b \<noteq> a" by auto
    with 3 show "h' b = h b" by simp
  qed
  from 1 2 4 show ?case by (intro conjI)
qed

lemma set_accepted: "set (accepted as vs) \<subseteq> set as"
  by (induction as vs rule: accepted.induct) auto

lemma validate_records_frame:
  assumes "validate_records rt h recs = Inr (h', valids, errors)"
  shows "(\<forall>a \<in> set valids. a \<in> set recs \<and> coerced rt (h a) (h' a)) \<and>
         (\<forall>a. a \<notin> set recs \<longrightarrow> h' a = h a) \<and>
         (\<forall>a. related rt (h a) (h' a))"
proof -
  have 0: "\<forall>a. related rt (h a) (h a)" by (simp add: related_def)
  have 00: "\<forall>a \<in> set []. coerced rt (h a) (h a)" by simp
  from validate_loop_inv [OF assms [unfolded validate_records_def] 0 00]
  have 1: "(\<forall>a. related rt (h a) (h' a)) \<and> (\<forall>a \<in> set valids. coerced rt (h a) (h' a)) \<and>
        (\<forall>a. a \<notin> set recs \<longrightarrow> h' a = h a)" .
  have 2: "set valids \<subseteq> set recs"
    using validate_records_verdicts [OF assms] set_accepted [of recs "verdicts rt 1 recs h"]
    by simp
  from 1 have 3: "\<forall>a. related rt (h a) (h' a)"
    and 4: "\<forall>a \<in> set valids. coerced rt (h a) (h' a)"
    and 5: "\<forall>a. a \<notin> set recs \<longrightarrow> h' a = h a"
    by simp_all
  from 2 4 have "\<forall>a \<in> set valids. a \<in> set recs \<and> coerced rt (h a) (h' a)"
    by auto
  with 3 5 show ?thesis by (intro conjI)
qed

lemma str_nat_digit: "n < 10 \<Longrightarrow> str_nat n = [''0123456789'' ! n]"
  by (subst str_nat.simps) simp

lemma str_nat_1: "str_nat (Suc 0) = ''1''" and str_nat_2: "str_nat (Suc (Suc 0)) = ''2''"
  by (simp_all add: str_nat_digit)

lemmas validate_eval =
  validate_records_def validate_record_def field_missing_def isna_truth_def array_truth_def
  REQUIRED_FOR_MARKER_def REQUIRED_FOR_CARD_def coerce_coordinates_def getitem_def dict_get_def
  store_def office_def Let_def

subsection \<open>Aliasing\<close>



subsection \<open>Markers\<close>





section \<open>Validation: the claims\<close>

lemma finite_or_kept_float:
  assumes "isna_truth v = Inr False" "py_float rt v = Inr x"
  shows "finite_or_kept rt v x"
proof (cases v)
  case (PFloat f)
  with assms show ?thesis
    by (cases f) (auto simp: finite_or_kept_def isna_truth_def)
next
  case (PInt n)
  with assms show ?thesis
    by (cases "rnd (of_int n)") (auto simp: finite_or_kept_def)
next
  case (PBool b)
  with assms show ?thesis
    by (auto simp: finite_or_kept_def)
next
  case (PStr s)
  with assms show ?thesis
    by (auto simp: finite_or_kept_def split: option.splits)
next
  case (PBytes s)
  with assms show ?thesis
    by (auto simp: finite_or_kept_def split: option.splits)
qed (use assms in auto)

text \<open>
  C4, as amended. Every record in the valid output has a float as latitude and as
  longitude, namely \<^verbatim>\<open>float\<close> of the value the input held. The float is finite when
  that value was an int, a bool or a finite float. Nothing checks for finiteness: an
  infinite float of the input is kept as it is, and a str or bytes gives whatever
  \<^verbatim>\<open>float\<close> parses, an infinity and NaN included. (A NaN float of the input counts as a
  missing field.)
\<close>

theorem validate_records_float_coordinates:
  assumes "validate_records rt h recs = Inr (h', valids, errors)" and "a \<in> set valids"
  shows "\<exists>vlat vlon x y.
           h a ''latitude'' = Some vlat \<and> h a ''longitude'' = Some vlon \<and>
           py_float rt vlat = Inr x \<and> py_float rt vlon = Inr y \<and>
           h' a ''latitude'' = Some (PFloat x) \<and> h' a ''longitude'' = Some (PFloat y) \<and>
           finite_or_kept rt vlat x \<and> finite_or_kept rt vlon y"
proof -
  from validate_records_frame [OF assms(1)] assms(2) have "coerced rt (h a) (h' a)"
    by blast
  then obtain vlat vlon x y where c:
    "h a ''latitude'' = Some vlat" "h a ''longitude'' = Some vlon"
    "isna_truth vlat = Inr False" "isna_truth vlon = Inr False"
    "py_float rt vlat = Inr x" "py_float rt vlon = Inr y"
    "h' a = (h a)(''latitude'' \<mapsto> PFloat x, ''longitude'' \<mapsto> PFloat y)"
    unfolding coerced_def by blast
  have "h' a ''latitude'' = Some (PFloat x)" "h' a ''longitude'' = Some (PFloat y)"
    unfolding c(7) by simp_all
  moreover note c(1,2,5,6) finite_or_kept_float [OF c(3) c(5)] finite_or_kept_float [OF c(4) c(6)]
  ultimately show ?thesis by blast
qed

text \<open>
  The claim C4 as stated fails: a record whose latitude is the float infinity (\<^verbatim>\<open>.inf\<close> in
  YAML) is placed in the valid output with that latitude.
\<close>

theorem validate_records_accepts_infinity:
  "(case validate_records example_rt (store [office (PFloat PInf) (PFloat (Fin 2))]) [0] of
      Inl e \<Rightarrow> False
    | Inr (h', valids, errors) \<Rightarrow>
        valids = [0] \<and> errors = [] \<and> h' 0 ''latitude'' = Some (PFloat PInf) \<and>
        \<not> finite_coordinates (h' 0))"
  by (simp add: validate_eval finite_coordinates_def)

theorem validate_records_float_coordinates_witness:
  "\<exists>h'. validate_records example_rt (store [office (PStr ''nan'') (PFloat NInf)]) [0] = Inr (h', [0], []) \<and>
        h' 0 ''latitude'' = Some (PFloat NaN) \<and> h' 0 ''longitude'' = Some (PFloat NInf) \<and>
        finite_or_kept example_rt (PStr ''nan'') NaN \<and> finite_or_kept example_rt (PFloat NInf) NInf"
proof -
  have "\<exists>h'. validate_records example_rt (store [office (PStr ''nan'') (PFloat NInf)]) [0] = Inr (h', [0], [])"
    by (simp add: validate_eval example_rt_def)
  then obtain h' where
    v: "validate_records example_rt (store [office (PStr ''nan'') (PFloat NInf)]) [0] = Inr (h', [0], [])"
    by blast
  from validate_records_float_coordinates [OF v, of 0] v show ?thesis
    by (auto simp: store_def office_def example_rt_def)
qed

text \<open>
  C10. Every record of the valid output is an object of the input list (the same
  address), and the store holds for it the dict of the input with the entries
  \<^verbatim>\<open>latitude\<close> and \<^verbatim>\<open>longitude\<close> replaced by their float coercions; every other key
  keeps its value. The replacement is made in the caller's objects: an object that is not
  in the list is untouched, and no object is created.
\<close>

theorem validate_records_in_place:
  assumes "validate_records rt h recs = Inr (h', valids, errors)"
  shows "(\<forall>a \<in> set valids.
            a \<in> set recs \<and>
            (\<exists>vlat vlon lat lon.
               h a ''latitude'' = Some vlat \<and> h a ''longitude'' = Some vlon \<and>
               py_float rt vlat = Inr lat \<and> py_float rt vlon = Inr lon \<and>
               h' a = (h a)(''latitude'' \<mapsto> PFloat lat, ''longitude'' \<mapsto> PFloat lon)) \<and>
            (\<forall>k. k \<noteq> ''latitude'' \<longrightarrow> k \<noteq> ''longitude'' \<longrightarrow> h' a k = h a k)) \<and>
         (\<forall>a. a \<notin> set recs \<longrightarrow> h' a = h a)"
proof -
  note f = validate_records_frame [OF assms]
  have "a \<in> set recs \<and>
        (\<exists>vlat vlon lat lon.
           h a ''latitude'' = Some vlat \<and> h a ''longitude'' = Some vlon \<and>
           py_float rt vlat = Inr lat \<and> py_float rt vlon = Inr lon \<and>
           h' a = (h a)(''latitude'' \<mapsto> PFloat lat, ''longitude'' \<mapsto> PFloat lon)) \<and>
        (\<forall>k. k \<noteq> ''latitude'' \<longrightarrow> k \<noteq> ''longitude'' \<longrightarrow> h' a k = h a k)"
    if a: "a \<in> set valids" for a
  proof -
    from f a have r: "a \<in> set recs" and "coerced rt (h a) (h' a)" by blast+
    then obtain vlat vlon lat lon where c:
      "h a ''latitude'' = Some vlat" "h a ''longitude'' = Some vlon"
      "py_float rt vlat = Inr lat" "py_float rt vlon = Inr lon"
      "h' a = (h a)(''latitude'' \<mapsto> PFloat lat, ''longitude'' \<mapsto> PFloat lon)"
      unfolding coerced_def by blast
    have "\<forall>k. k \<noteq> ''latitude'' \<longrightarrow> k \<noteq> ''longitude'' \<longrightarrow> h' a k = h a k"
      unfolding c(5) by simp
    with r c show ?thesis by blast
  qed
  moreover from f have "\<forall>a. a \<notin> set recs \<longrightarrow> h' a = h a" by blast
  ultimately show ?thesis by blast
qed

theorem validate_records_in_place_witness:
  "\<exists>h'. validate_records example_rt
           (store [office (PStr ''38.75'') (PBool True), office (PStr ''not-a-number'') (PBool True)])
           [0, 1] = Inr (h', [0], [''Item 2: latitude/longitude inv'' @ [CHR 0xC3, CHR 0xA1] @ ''lidas'']) \<and>
        h' 0 = (office (PStr ''38.75'') (PBool True))
                 (''latitude'' \<mapsto> PFloat (Fin (155 / 4)), ''longitude'' \<mapsto> PFloat (Fin 1)) \<and>
        h' 0 ''city'' = Some (PStr ''Lisboa'') \<and>
        h' 2 = Map.empty"
proof -
  let ?S = "store [office (PStr ''38.75'') (PBool True), office (PStr ''not-a-number'') (PBool True)]"
  have "\<exists>h'. validate_records example_rt ?S [0, 1] =
          Inr (h', [0], [''Item 2: latitude/longitude inv'' @ [CHR 0xC3, CHR 0xA1] @ ''lidas''])"
    by (simp add: validate_eval example_rt_def msg_invalid_def str_nat_2)
  then obtain h' where
    v: "validate_records example_rt ?S [0, 1] =
          Inr (h', [0], [''Item 2: latitude/longitude inv'' @ [CHR 0xC3, CHR 0xA1] @ ''lidas''])"
    by blast
  from validate_records_in_place [OF v] have
    1: "\<exists>vlat vlon lat lon.
         ?S 0 ''latitude'' = Some vlat \<and> ?S 0 ''longitude'' = Some vlon \<and>
         py_float example_rt vlat = Inr lat \<and> py_float example_rt vlon = Inr lon \<and>
         h' 0 = (?S 0)(''latitude'' \<mapsto> PFloat lat, ''longitude'' \<mapsto> PFloat lon)"
    and 2: "h' 2 = ?S 2"
    by simp_all
  from 1 have 3: "h' 0 = (office (PStr ''38.75'') (PBool True))
                 (''latitude'' \<mapsto> PFloat (Fin (155 / 4)), ''longitude'' \<mapsto> PFloat (Fin 1))"
    by (auto simp: store_def office_def example_rt_def)
  have 4: "h' 0 ''city'' = Some (PStr ''Lisboa'')"
    unfolding 3 by (simp add: office_def)
  from 2 have 5: "h' 2 = Map.empty"
    by (simp add: store_def)
  from v 3 4 5 show ?thesis by blast
qed



text \<open>
  C3. The claim is that \<^verbatim>\<open>validate_records\<close> never raises. It does: on a record whose
  \<^verbatim>\<open>nome\<close> is a list of two strings, \<^verbatim>\<open>pd.isna\<close> returns an array of two elements,
  whose truth value is a \<^verbatim>\<open>ValueError\<close>, outside the \<^verbatim>\<open>try\<close> block.
\<close>

theorem validate_records_raises_on_list:
  "validate_records rt
     (store [(office (PFloat (Fin 1)) (PFloat (Fin 2)))(''nome'' \<mapsto> PList [PStr ''a'', PStr ''b''])])
     [0] = Inl ValueError"
  by (simp add: validate_eval)

text \<open>
  C1. The claim is that every input list yields a pair whose lengths add up to the length
  of the input. On a list whose second record has a list of two strings as \<^verbatim>\<open>city\<close>
  no pair is returned: the call raises, although the first record is valid. (Where the
  call returns, the lengths add up: \<open>validate_records_count\<close>.)
\<close>

theorem validate_records_no_pair_on_list:
  "validate_records rt
     (store [office (PFloat (Fin 1)) (PFloat (Fin 2)),
             (office (PFloat (Fin 3)) (PFloat (Fin 4)))(''city'' \<mapsto> PList [PStr ''Paris'', PStr ''Lyon''])])
     [0, 1] = Inl ValueError"
  by (simp add: validate_eval)

text \<open>
  C2. The claim is that a record with a missing required field gets one aggregated error
  string. A record without \<^verbatim>\<open>city\<close> whose \<^verbatim>\<open>contact\<close> is a list of two strings gets
  none: the test of \<^verbatim>\<open>contact\<close> raises before the error string is built.
\<close>

theorem validate_records_missing_city_raises:
  "validate_records rt
     (store [(office (PFloat (Fin 1)) (PFloat (Fin 2)))
               (''city'' := None, ''contact'' \<mapsto> PList [PStr ''a@x.test'', PStr ''b@x.test''])])
     [0] = Inl ValueError"
  by (simp add: validate_eval)

section \<open>Doubles that need no rounding\<close>

lemma round_half_even_of_int: "round_half_even (of_int n) = n"
  by (simp add: round_half_even_def)

lemma powi_of_int_le:
  assumes "0 < a"
  shows "(2::rat) powi (bitlen a - 1) \<le> of_int a" and "(of_int a :: rat) < 2 powi (bitlen a)"
proof -
  from bitlen_bounds [OF assms] have 1: "2 ^ nat (bitlen a - 1) \<le> a" and 2: "a < 2 ^ nat (bitlen a)"
    by simp_all
  have p: "1 \<le> bitlen a"
    using assms bitlen_eq_zero_iff [of a] bitlen_nonneg [of a] by linarith
  have "(2::rat) powi (bitlen a - 1) = 2 ^ nat (bitlen a - 1)"
    using p by (simp add: power_int_def)
  also have "\<dots> = of_int (2 ^ nat (bitlen a - 1))" by simp
  also have "\<dots> \<le> of_int a" using 1 by (simp only: of_int_le_iff)
  finally show "(2::rat) powi (bitlen a - 1) \<le> of_int a" .
  have "(of_int a :: rat) < of_int (2 ^ nat (bitlen a))" using 2 by (simp only: of_int_less_iff)
  also have "\<dots> = 2 ^ nat (bitlen a)" by simp
  also have "\<dots> = 2 powi (bitlen a)"
    using p by (simp add: power_int_def)
  finally show "(of_int a :: rat) < 2 powi (bitlen a)" .
qed

lemma ilog2_le:
  assumes "0 < x"
  shows "2 powi (ilog2 x) \<le> x"
proof -
  obtain a b where q: "quotient_of x = (a, b)" by (cases "quotient_of x")
  then have b: "0 < b" and x: "x = of_int a / of_int b"
    using quotient_of_denom_pos quotient_of_div by blast+
  from assms x b have a: "0 < a"
    by (simp add: zero_less_divide_iff)
  let ?e = "bitlen a - bitlen b"
  show ?thesis
  proof (cases "2 powi ?e \<le> x")
    case True
    then show ?thesis by (simp add: ilog2_def q)
  next
    case False
    then have i: "ilog2 x = ?e - 1" by (simp add: ilog2_def q)
    have "?e - 1 = (bitlen a - 1) - bitlen b" by simp
    then have "(2::rat) powi (?e - 1) = 2 powi ((bitlen a - 1) - bitlen b)" by (rule arg_cong)
    also have "\<dots> = 2 powi (bitlen a - 1) / 2 powi (bitlen b)"
      by (rule power_int_diff) simp
    also have "\<dots> \<le> of_int a / 2 powi (bitlen b)"
      using powi_of_int_le(1) [OF a] by (simp add: divide_right_mono)
    also have "\<dots> \<le> of_int a / of_int b"
      using powi_of_int_le(2) [OF b] a b by (simp add: frac_le)
    finally have "(2::rat) powi (?e - 1) \<le> of_int a / of_int b" .
    then show ?thesis by (simp only: i x [symmetric])
  qed
qed

lemma rnd_double:
  assumes "is_double x"
  shows "rnd x = Fin x"
proof (cases "x = 0")
  case True
  then show ?thesis by (simp add: rnd_def)
next
  case False
  from assms obtain m k where x: "x = of_int m * 2 powi k" and m: "\<bar>m\<bar> < 2 ^ 53"
    and k: "- 1074 \<le> k" and big: "\<bar>x\<bar> < 2 powi 1024"
    unfolding is_double_def by blast
  let ?e = "max (ilog2 \<bar>x\<bar>) (- 1022)"
  let ?u = "(2::rat) powi (?e - 52)"
  have pos: "0 < \<bar>x\<bar>" using False by simp
  have "\<bar>x\<bar> = of_int \<bar>m\<bar> * 2 powi k"
    unfolding x by (simp add: abs_mult)
  also have "\<dots> < of_int (2 ^ 53) * 2 powi k"
    using m by (intro mult_strict_right_mono) (simp_all only: of_int_less_iff zero_less_power_int zero_less_numeral)
  also have "\<dots> = 2 powi (53 + k)"
    by (simp add: power_int_add)
  finally have "\<bar>x\<bar> < 2 powi (53 + k)" .
  with ilog2_le [OF pos] have "(2::rat) powi (ilog2 \<bar>x\<bar>) < 2 powi (53 + k)"
    by simp
  then have "ilog2 \<bar>x\<bar> < 53 + k"
    using power_int_increasing [of "53 + k" "ilog2 \<bar>x\<bar>" "2::rat"] by (cases "ilog2 \<bar>x\<bar> < 53 + k") auto
  with k have e: "?e - 52 \<le> k" by simp
  define j where "j = nat (k - (?e - 52))"
  have kj: "k = (?e - 52) + int j" using e by (simp add: j_def)
  have "x / ?u = of_int m * (2 powi k / ?u)" unfolding x by simp
  also have "2 powi k / ?u = (2::rat) ^ j"
    by (subst kj) (simp add: power_int_add)
  finally have xu: "x / ?u = of_int (m * 2 ^ j)" by simp
  have "of_int (round_half_even (x / ?u)) * ?u = x"
    unfolding xu round_half_even_of_int unfolding xu [symmetric] by simp
  with big False show ?thesis
    by (simp add: rnd_def Let_def)
qed

lemma is_double_of_int: "\<bar>n\<bar> < 2 ^ 53 \<Longrightarrow> is_double (of_int n)"
proof -
  assume n: "\<bar>n\<bar> < 2 ^ 53"
  have "(of_int n :: rat) = of_int n * 2 powi 0" by simp
  moreover have "\<bar>of_int n :: rat\<bar> < 2 powi 1024"
  proof -
    have "\<bar>of_int n :: rat\<bar> = of_int \<bar>n\<bar>" by simp
    also have "\<dots> < of_int (2 ^ 53)" using n by (simp only: of_int_less_iff)
    also have "\<dots> \<le> 2 powi 1024" by simp
    finally show ?thesis .
  qed
  ultimately show ?thesis
    unfolding is_double_def using n by (metis neg_numeral_le_zero)
qed

lemma is_double_numeral: "numeral n < (2::int) ^ 53 \<Longrightarrow> is_double (numeral n)"
  using is_double_of_int [of "numeral n"] by simp

lemma is_double_0: "is_double 0" and is_double_1: "is_double 1"
  using is_double_of_int [of 0] is_double_of_int [of 1] by simp_all

lemma is_double_of_nat: "n < 2 ^ 53 \<Longrightarrow> is_double (of_nat n)"
  using is_double_of_int [of "int n"] by (simp add: of_nat_less_numeral_power_cancel_iff)

lemma rnd_0: "rnd 0 = Fin 0"
  by (simp add: rnd_def)

lemma getitems_all:
  "(\<forall>a \<in> set recs. h a k = Some (f a)) \<Longrightarrow> getitems h recs k = Inr (map f recs)"
  by (induction recs) (simp_all add: getitem_def)

lemma py_sum_floats:
  "exact_sums s xs \<Longrightarrow>
   py_sum (NFloat (Fin s)) (map (\<lambda>x. PFloat (Fin x)) xs) = Inr (NFloat (Fin (s + sum_list xs)))"
proof (induction xs arbitrary: s)
  case Nil
  show ?case by simp
next
  case (Cons x xs)
  then have d: "is_double (s + x)" and e: "exact_sums (s + x) xs" by simp_all
  from Cons.IH [OF e] rnd_double [OF d] show ?case
    by (simp add: add.assoc)
qed

lemma py_sum_start:
  assumes "exact_sums 0 xs" "xs \<noteq> []"
  shows "py_sum (NInt 0) (map (\<lambda>x. PFloat (Fin x)) xs) = Inr (NFloat (Fin (sum_list xs)))"
proof -
  from assms(2) obtain x ys where xs: "xs = x # ys" by (cases xs) auto
  with assms(1) have d: "is_double x" and e: "exact_sums x ys" by simp_all
  from py_sum_floats [OF e] rnd_double [OF d] show ?thesis
    unfolding xs by (simp add: int_to_float_def rnd_0)
qed

lemma mean_of_exact:
  assumes "xs \<noteq> []" "length xs < 2 ^ 53" "exact_sums 0 xs"
    and "is_double (sum_list xs / of_nat (length xs))"
  shows "mean_of (map (\<lambda>x. PFloat (Fin x)) xs) = Inr (Fin (sum_list xs / of_nat (length xs)))"
proof -
  have n: "rnd (of_nat (length xs)) = Fin (of_nat (length xs))"
    by (rule rnd_double [OF is_double_of_nat [OF assms(2)]])
  from assms(1) have "length xs \<noteq> 0" by simp
  with py_sum_start [OF assms(3) assms(1)] n rnd_double [OF assms(4)] show ?thesis
    by (simp add: mean_of_def num_div_len_def)
qed

text \<open>
  C5, as amended. For a non-empty list of records with finite coordinates,
  \<^verbatim>\<open>compute_map_center\<close> returns the pair of the arithmetic means of the latitudes and of
  the longitudes whenever the arithmetic of doubles is exact on them: every running sum
  and both means are doubles. (The list is shorter than \<open>2\<^sup>5\<^sup>3\<close>, as every list in memory
  is.) Otherwise the result is the rounded one.
\<close>

theorem compute_map_center_exact:
  assumes "recs \<noteq> []" and "length recs < 2 ^ 53"
    and "\<forall>a \<in> set recs. h a ''latitude'' = Some (PFloat (Fin (lat a))) \<and>
                        h a ''longitude'' = Some (PFloat (Fin (lon a)))"
    and "exact_sums 0 (map lat recs)" and "exact_sums 0 (map lon recs)"
    and "is_double (sum_list (map lat recs) / of_nat (length recs))"
    and "is_double (sum_list (map lon recs) / of_nat (length recs))"
  shows "compute_map_center h recs =
           Inr (Fin (sum_list (map lat recs) / of_nat (length recs)),
                Fin (sum_list (map lon recs) / of_nat (length recs)))"
proof -
  from assms(3) have
    1: "getitems h recs ''latitude'' = Inr (map (\<lambda>a. PFloat (Fin (lat a))) recs)" and
    2: "getitems h recs ''longitude'' = Inr (map (\<lambda>a. PFloat (Fin (lon a))) recs)"
    by (simp_all add: getitems_all)
  have m: "map (\<lambda>a. PFloat (Fin (f a))) recs = map (\<lambda>x. PFloat (Fin x)) (map f recs)" for f :: "addr \<Rightarrow> rat"
    by simp
  from assms(1) have ne: "map f recs \<noteq> []" for f :: "addr \<Rightarrow> rat" by simp
  from assms(2) have len: "length (map f recs) < 2 ^ 53" for f :: "addr \<Rightarrow> rat" by simp
  have 3: "mean_of (map (\<lambda>a. PFloat (Fin (lat a))) recs) =
           Inr (Fin (sum_list (map lat recs) / of_nat (length recs)))"
    unfolding m using mean_of_exact [OF ne len assms(4)] assms(6) by simp
  have 4: "mean_of (map (\<lambda>a. PFloat (Fin (lon a))) recs) =
           Inr (Fin (sum_list (map lon recs) / of_nat (length recs)))"
    unfolding m using mean_of_exact [OF ne len assms(5)] assms(7) by simp
  show ?thesis
    by (simp add: compute_map_center_def 1 2 3 4)
qed

lemma rnd_5_3: "rnd (5 / 3) = Fin (7505999378950827 / 4503599627370496)"
  by code_simp

section \<open>The map centre: the claims\<close>

text \<open>The records at (10.0, 20.0) and (20.0, 40.0) have the centre (15.0, 30.0).\<close>

theorem compute_map_center_exact_witness:
  "compute_map_center
     (store [office (PFloat (Fin 10)) (PFloat (Fin 20)), office (PFloat (Fin 20)) (PFloat (Fin 40))])
     [0, 1] = Inr (Fin 15, Fin 30)"
proof -
  let ?h = "store [office (PFloat (Fin 10)) (PFloat (Fin 20)), office (PFloat (Fin 20)) (PFloat (Fin 40))]"
  let ?lat = "\<lambda>a::addr. if a = 0 then 10 else (20::rat)"
  let ?lon = "\<lambda>a::addr. if a = 0 then 20 else (40::rat)"
  have 1: "[0, 1::addr] \<noteq> []" by simp
  have 2: "length [0, 1::addr] < 2 ^ 53" by simp
  have 3: "\<forall>a \<in> set [0, 1]. ?h a ''latitude'' = Some (PFloat (Fin (?lat a))) \<and>
                        ?h a ''longitude'' = Some (PFloat (Fin (?lon a)))"
    by (simp add: store_def office_def)
  have 4: "exact_sums 0 (map ?lat [0, 1])" by (simp add: is_double_numeral)
  have 5: "exact_sums 0 (map ?lon [0, 1])" by (simp add: is_double_numeral)
  have 6: "is_double (sum_list (map ?lat [0, 1]) / of_nat (length [0, 1::addr]))"
    by (simp add: is_double_numeral)
  have 7: "is_double (sum_list (map ?lon [0, 1]) / of_nat (length [0, 1::addr]))"
    by (simp add: is_double_numeral)
  from compute_map_center_exact [of "[0, 1]" ?h ?lat ?lon, OF 1 2 3 4 5 6 7] show ?thesis
    by simp
qed

text \<open>
  The claim C5 as stated fails: the mean of the latitudes 1.0, 2.0 and 2.0 is \<open>5/3\<close>, which
  is no double; the function returns the double next to it, 1.6666666666666667.
\<close>

theorem compute_map_center_rounds:
  "compute_map_center
     (store [office (PFloat (Fin 1)) (PFloat (Fin 0)), office (PFloat (Fin 2)) (PFloat (Fin 0)),
             office (PFloat (Fin 2)) (PFloat (Fin 0))])
     [0, 1, 2] = Inr (Fin (7505999378950827 / 4503599627370496), Fin 0) \<and>
   (7505999378950827 / 4503599627370496 :: rat) \<noteq> (1 + 2 + 2) / 3"
proof -
  have d: "rnd 1 = Fin 1" "rnd 3 = Fin 3" "rnd 5 = Fin 5"
    by (simp_all add: rnd_double is_double_numeral is_double_1)
  show ?thesis
    by (simp add: compute_map_center_def mean_of_def num_div_len_def getitem_def store_def
        office_def int_to_float_def rnd_0 d rnd_5_3)
qed

end
